theory Spec2Isabelle
  imports Complex_Main "HOL-Library.Multiset"
begin

section \<open>JavaScript primitives used by generate-download-chart.js\<close>

text \<open>
  Numbers are modelled as mathematical integers and rationals: the counts, indices and
  time values of the script are integers, exact as doubles below \<open>2^53\<close>, and a
  quotient is taken in \<open>rat\<close> before it is rounded. What \<open>Number\<close> reads from a string
  is rounded to a double. Strings are \<open>char list\<close>s of ASCII characters.
\<close>

datatype error = TypeError | RangeError

text \<open>\<open>Math.round(x)\<close>: the integer nearest to \<open>x\<close>, a tie going up.\<close>

definition Math_round :: "rat \<Rightarrow> int" where
  "Math_round x = \<lfloor>x + 1 / 2\<rfloor>"

text \<open>
  \<open>Array.prototype.sort(cmp)\<close> is stable, and for a consistent comparator its result is
  the unique stable arrangement in which \<open>cmp a b \<le> 0\<close> for \<open>a\<close> before \<open>b\<close>.
  The model is the stable insertion sort: an element goes in front of the first later
  element that does not precede it.
\<close>

fun insert_js :: "('a \<Rightarrow> 'a \<Rightarrow> int) \<Rightarrow> 'a \<Rightarrow> 'a list \<Rightarrow> 'a list" where
  "insert_js cmp x [] = [x]"
| "insert_js cmp x (y # ys) =
     (if cmp x y \<le> 0 then x # y # ys else y # insert_js cmp x ys)"

fun sort_js :: "('a \<Rightarrow> 'a \<Rightarrow> int) \<Rightarrow> 'a list \<Rightarrow> 'a list" where
  "sort_js cmp [] = []"
| "sort_js cmp (x # xs) = insert_js cmp x (sort_js cmp xs)"

text \<open>\<open>xs.slice(s, e)\<close> for \<open>0 \<le> s\<close>.\<close>

definition slice :: "'a list \<Rightarrow> nat \<Rightarrow> nat \<Rightarrow> 'a list" where
  "slice xs s e = take (e - s) (drop s xs)"

text \<open>\<open>s.split(sep)\<close> for a separator of one character out of a given set.\<close>

fun split_on :: "(char \<Rightarrow> bool) \<Rightarrow> string \<Rightarrow> string list" where
  "split_on sep [] = [[]]"
| "split_on sep (c # cs) =
     (if sep c then [] # split_on sep cs
      else (case split_on sep cs of
              [] \<Rightarrow> [[c]]
            | w # ws \<Rightarrow> (c # w) # ws))"

definition isDigit :: "char \<Rightarrow> bool" where
  "isDigit c = (48 \<le> (of_char c :: nat) \<and> (of_char c :: nat) \<le> 57)"

definition isWhiteSpace :: "char \<Rightarrow> bool" where
  "isWhiteSpace c = ((of_char c :: nat) \<in> {9, 10, 11, 12, 13, 32})"

definition digitsToInt :: "string \<Rightarrow> int" where
  "digitsToInt ds = foldl (\<lambda>acc c. acc * 10 + (int (of_char c) - 48)) 0 ds"

text \<open>
  \<open>parseInt(s, 10)\<close>: leading white space is skipped, a sign is read, then the longest
  run of decimal digits; \<open>None\<close> is \<open>NaN\<close>.
\<close>

definition parseInt10 :: "string \<Rightarrow> int option" where
  "parseInt10 s =
     (let s1 = dropWhile isWhiteSpace s;
          neg = (s1 \<noteq> [] \<and> hd s1 = CHR ''-'');
          s2 = (if s1 \<noteq> [] \<and> (hd s1 = CHR ''-'' \<or> hd s1 = CHR ''+'') then tl s1 else s1);
          ds = takeWhile isDigit s2
      in if ds = [] then None
         else Some (if neg then - digitsToInt ds else digitsToInt ds))"

text \<open>
  A JavaScript number other than \<open>NaN\<close>: a double, which is a rational, or an
  infinity; \<open>-0\<close> is \<open>0\<close>. \<open>NaN\<close> is \<open>None\<close> of \<open>jsnum option\<close>. The order is that of
  \<open><\<close> on numbers.
\<close>

datatype jsnum = NegInfinity | Finite rat | PosInfinity

instantiation jsnum :: linorder
begin

fun less_eq_jsnum :: "jsnum \<Rightarrow> jsnum \<Rightarrow> bool" where
  "less_eq_jsnum NegInfinity b = True"
| "less_eq_jsnum (Finite x) NegInfinity = False"
| "less_eq_jsnum (Finite x) (Finite y) = (x \<le> y)"
| "less_eq_jsnum (Finite x) PosInfinity = True"
| "less_eq_jsnum PosInfinity PosInfinity = True"
| "less_eq_jsnum PosInfinity b = False"

definition less_jsnum :: "jsnum \<Rightarrow> jsnum \<Rightarrow> bool" where
  "less_jsnum a b = (a \<le> b \<and> \<not> b \<le> a)"

instance
proof
  fix x y z :: jsnum
  show "(x < y) = (x \<le> y \<and> \<not> y \<le> x)" by (simp add: less_jsnum_def)
  show "x \<le> x" by (cases x) simp_all
  show "x \<le> y \<Longrightarrow> y \<le> z \<Longrightarrow> x \<le> z" by (cases x; cases y; cases z) simp_all
  show "x \<le> y \<Longrightarrow> y \<le> x \<Longrightarrow> x = y" by (cases x; cases y) simp_all
  show "x \<le> y \<or> y \<le> x" by (cases x; cases y) auto
qed

end

instantiation jsnum :: zero
begin

definition zero_jsnum :: jsnum where
  "zero_jsnum = Finite 0"

instance ..

end

text \<open>
  The double nearest to a rational \<open>q = n/d\<close>, a tie going to the even significand.
  An integer up to \<open>2^53\<close> in magnitude is a double. Otherwise the doubles around \<open>q\<close>
  are the multiples of \<open>2^s\<close> with \<open>s = max(e, -1022) - 52\<close> for \<open>2^e \<le> |q| < 2^(e+1)\<close>
  (\<open>bitLength\<close> counts binary digits, \<open>floorLog2\<close> is \<open>e\<close>), \<open>roundHalfEven n d\<close> is the
  integer nearest to \<open>n/d\<close>, and a result of \<open>2^1024\<close> or more is an infinity.
\<close>

function bitLength :: "int \<Rightarrow> int" where
  "bitLength n = (if n \<le> 0 then 0 else 1 + bitLength (n div 2))"
  by pat_completeness auto
termination
  by (relation "measure nat") auto

declare bitLength.simps [simp del]

definition floorLog2 :: "int \<Rightarrow> int \<Rightarrow> int" where
  "floorLog2 n d =
     (let e0 = bitLength n - bitLength d
      in if (if 0 \<le> e0 then d * 2 ^ nat e0 \<le> n else d \<le> n * 2 ^ nat (- e0)) then e0
         else e0 - 1)"

definition roundHalfEven :: "int \<Rightarrow> int \<Rightarrow> int" where
  "roundHalfEven n d =
     (if 2 * (n mod d) < d then n div d
      else if d < 2 * (n mod d) then n div d + 1
      else if even (n div d) then n div d
      else n div d + 1)"

definition toDouble :: "rat \<Rightarrow> jsnum" where
  "toDouble q =
     (let n = \<bar>fst (quotient_of q)\<bar>;
          d = snd (quotient_of q)
      in if d = 1 \<and> n \<le> 9007199254740992 then Finite q
         else
           (let s = max (floorLog2 n d) (- 1022) - 52;
                m = (if 0 \<le> s then roundHalfEven n (d * 2 ^ nat s)
                     else roundHalfEven (n * 2 ^ nat (- s)) d)
            in if 0 \<le> s
               then (if 2 ^ 1024 \<le> m * 2 ^ nat s
                     then (if q < 0 then NegInfinity else PosInfinity)
                     else Finite (of_int (if q < 0 then - (m * 2 ^ nat s) else m * 2 ^ nat s)))
               else Finite (of_int (if q < 0 then - m else m) / of_int (2 ^ nat (- s)))))"

text \<open>
  \<open>Number(s)\<close> on a string (StringToNumber): white space is trimmed at both ends; the
  empty string is 0; \<open>0x\<close>, \<open>0o\<close> and \<open>0b\<close> start an unsigned integer in that radix;
  otherwise a sign may come first, then \<open>Infinity\<close> or decimal digits with an optional
  point and an optional exponent; anything else is \<open>NaN\<close>.
\<close>

definition digitValue :: "char \<Rightarrow> nat" where
  "digitValue c =
     (if 48 \<le> (of_char c :: nat) \<and> (of_char c :: nat) \<le> 57 then of_char c - 48
      else if 97 \<le> (of_char c :: nat) \<and> (of_char c :: nat) \<le> 102 then of_char c - 87
      else if 65 \<le> (of_char c :: nat) \<and> (of_char c :: nat) \<le> 70 then of_char c - 55
      else 16)"

definition digitsOf :: "nat \<Rightarrow> string \<Rightarrow> bool" where
  "digitsOf radix ds = (ds \<noteq> [] \<and> list_all (\<lambda>c. digitValue c < radix) ds)"

definition digitsValue :: "nat \<Rightarrow> string \<Rightarrow> int" where
  "digitsValue radix ds = foldl (\<lambda>acc c. acc * int radix + int (digitValue c)) 0 ds"

definition scale10 :: "int \<Rightarrow> int \<Rightarrow> rat" where
  "scale10 m e = (if 0 \<le> e then of_int (m * 10 ^ nat e) else of_int m / of_int (10 ^ nat (- e)))"

definition unsigned :: "string \<Rightarrow> string" where
  "unsigned s = (if s \<noteq> [] \<and> (hd s = CHR ''-'' \<or> hd s = CHR ''+'') then tl s else s)"

definition isExponentIndicator :: "char \<Rightarrow> bool" where
  "isExponentIndicator c = (c = CHR ''e'' \<or> c = CHR ''E'')"

definition unsignedDecimal :: "string \<Rightarrow> rat option" where
  "unsignedDecimal u =
     (let mantissa = takeWhile (\<lambda>c. \<not> isExponentIndicator c) u;
          afterMantissa = dropWhile (\<lambda>c. \<not> isExponentIndicator c) u;
          intPart = takeWhile (\<lambda>c. c \<noteq> CHR ''.'') mantissa;
          afterInt = dropWhile (\<lambda>c. c \<noteq> CHR ''.'') mantissa;
          fracPart = tl afterInt;
          expPart = tl afterMantissa
      in if \<not> (digitsOf 10 (intPart @ fracPart)) then None
         else if afterMantissa = []
           then Some (scale10 (digitsValue 10 (intPart @ fracPart)) (- int (length fracPart)))
         else if \<not> digitsOf 10 (unsigned expPart) then None
         else Some (scale10 (digitsValue 10 (intPart @ fracPart))
                      ((if expPart \<noteq> [] \<and> hd expPart = CHR ''-''
                        then - digitsValue 10 (unsigned expPart)
                        else digitsValue 10 (unsigned expPart))
                       - int (length fracPart))))"

definition radixOfPrefix :: "string \<Rightarrow> nat option" where
  "radixOfPrefix t =
     (if take 2 t = ''0x'' \<or> take 2 t = ''0X'' then Some 16
      else if take 2 t = ''0o'' \<or> take 2 t = ''0O'' then Some 8
      else if take 2 t = ''0b'' \<or> take 2 t = ''0B'' then Some 2
      else None)"

definition Number_js :: "string \<Rightarrow> jsnum option" where
  "Number_js s =
     (let t = rev (dropWhile isWhiteSpace (rev (dropWhile isWhiteSpace s)))
      in if t = [] then Some (Finite 0)
         else case radixOfPrefix t of
           Some radix \<Rightarrow>
             (if digitsOf radix (drop 2 t) then Some (toDouble (of_int (digitsValue radix (drop 2 t))))
              else None)
         | None \<Rightarrow>
             (if unsigned t = ''Infinity''
              then Some (if hd t = CHR ''-'' then NegInfinity else PosInfinity)
              else case unsignedDecimal (unsigned t) of
                     None \<Rightarrow> None
                   | Some q \<Rightarrow> Some (toDouble (if hd t = CHR ''-'' then - q else q))))"

text \<open>\<open>x || 0\<close> on a number that may be \<open>NaN\<close> or \<open>undefined\<close>.\<close>

definition orZero :: "'n::zero option \<Rightarrow> 'n" where
  "orZero v = (case v of None \<Rightarrow> 0 | Some n \<Rightarrow> n)"

section \<open>Input: the history file\<close>

text \<open>
  The history file is a JSON object from time stamps to entries with a \<open>data\<close> object.
  The model is \<open>Object.entries\<close> of it with each key read by \<open>parseInt\<close> as an
  integer: a list of time values, each with the entries of its \<open>data\<close> object in key
  order. A member of \<open>data\<close> is a number or one of the falsy JSON values; the members
  \<open>downloads\<close> and \<open>dailyGrowth\<close> are read, of the others only the keys are. (A key
  that is no integer, an entry without a \<open>data\<close> object and a truthy member that is no
  number are not values of these types.)
\<close>

datatype jval = JNum int | JNull | JFalse | JEmptyString

type_synonym entryData = "(string \<times> jval) list"
type_synonym historicalData = "(int \<times> entryData) list"

text \<open>\<open>v || 0\<close> for a member that may be absent.\<close>

fun memberOrZero :: "jval option \<Rightarrow> int" where
  "memberOrZero (Some (JNum n)) = n"
| "memberOrZero _ = 0"

record dataPoint =
  date :: int
  downloads :: int
  dailyGrowth :: int
  versions :: "(string \<times> jval) list"

definition mkPoint :: "int \<times> entryData \<Rightarrow> dataPoint" where
  "mkPoint e =
     \<lparr> date = fst e,
       downloads = memberOrZero (map_of (snd e) ''downloads''),
       dailyGrowth = memberOrZero (map_of (snd e) ''dailyGrowth''),
       versions = filter (\<lambda>kv. fst kv \<noteq> ''downloads'' \<and> fst kv \<noteq> ''updated''
                                \<and> fst kv \<noteq> ''dailyGrowth'') (snd e) \<rparr>"

definition byDate :: "dataPoint \<Rightarrow> dataPoint \<Rightarrow> int" where
  "byDate a b = date a - date b"

definition dataPoints :: "historicalData \<Rightarrow> dataPoint list" where
  "dataPoints h = sort_js byDate (map mkPoint h)"

section \<open>The current version of each data point\<close>

text \<open>
  The comparator of the inner sort (newest first): the dotted parts are read by
  \<open>Number\<close>, a part that is missing, \<open>NaN\<close> or 0 counts as 0, and the first position
  where the two differ decides. \<open>firstDiff a b i k\<close> is the loop at index \<open>i\<close> with
  \<open>k\<close> iterations left; it yields the two values at the first difference. The script
  returns \<open>bVal - aVal\<close> there, which for two different numbers is neither 0 nor
  \<open>NaN\<close>, and the sort reads its sign only: the model returns \<open>-1\<close> or \<open>1\<close>. The reader
  of numbers is the parameter \<open>num\<close>, so that what is proved of the tags holds for
  whatever \<open>Number\<close> returns; \<open>Number_js\<close> is its model.
\<close>

fun firstDiff :: "(nat \<Rightarrow> 'n) \<Rightarrow> (nat \<Rightarrow> 'n) \<Rightarrow> nat \<Rightarrow> nat \<Rightarrow> ('n \<times> 'n) option" where
  "firstDiff a b i 0 = None"
| "firstDiff a b i (Suc k) =
     (if a i \<noteq> b i then Some (a i, b i) else firstDiff a b (Suc i) k)"

definition valAt :: "'n::zero option list \<Rightarrow> nat \<Rightarrow> 'n" where
  "valAt parts i = (if i < length parts then orZero (parts ! i) else 0)"

definition isDot :: "char \<Rightarrow> bool" where
  "isDot c = (c = CHR ''.'')"

definition newestFirst :: "(string \<Rightarrow> 'n::{linorder,zero} option) \<Rightarrow> string \<Rightarrow> string \<Rightarrow> int" where
  "newestFirst num a b =
     (let aParts = map num (split_on isDot a);
          bParts = map num (split_on isDot b)
      in case firstDiff (valAt aParts) (valAt bParts) 0 (max (length aParts) (length bParts)) of
           Some (aVal, bVal) \<Rightarrow> (if bVal < aVal then - 1 else 1)
         | None \<Rightarrow> 0)"

definition newestVersion :: "(string \<Rightarrow> 'n::{linorder,zero} option) \<Rightarrow> string list \<Rightarrow> string" where
  "newestVersion num vs = hd (sort_js (newestFirst num) vs)"

text \<open>
  One step of the \<open>forEach\<close>: \<open>cur\<close> is the variable \<open>currentVersion\<close> (\<open>None\<close> is
  \<open>null\<close>; the empty string is falsy as well); the result is its new value, which is
  also the tag of the point.
\<close>

definition tagStep ::
  "(string \<Rightarrow> 'n::{linorder,zero} option) \<Rightarrow> string option \<Rightarrow> dataPoint \<Rightarrow> string option" where
  "tagStep num cur point =
     (let vs = map fst (versions point)
      in if length vs > 0
         then (if cur = None \<or> cur = Some [] \<or> the cur \<in> set vs
               then Some (newestVersion num vs) else cur)
         else cur)"

fun tagPoints ::
  "(string \<Rightarrow> 'n::{linorder,zero} option) \<Rightarrow> string option \<Rightarrow> dataPoint list
     \<Rightarrow> string option list" where
  "tagPoints num cur [] = []"
| "tagPoints num cur (point # points) =
     tagStep num cur point # tagPoints num (tagStep num cur point) points"

section \<open>Version releases\<close>

record versionRelease =
  version :: string
  releaseDate :: int
  index :: nat
  releaseDownloads :: int

record measuredRelease = versionRelease +
  endDownloads :: int
  downloadChange :: int
  durationDays :: int
  avgDailyGrowth :: int

text \<open>
  The first pass: \<open>seen\<close> is the set \<open>processedVersions\<close>, \<open>rels\<close> the array
  \<open>versionReleases\<close>.
\<close>

definition visitVersion ::
  "dataPoint \<Rightarrow> nat \<Rightarrow> string list \<times> versionRelease list \<Rightarrow> string
     \<Rightarrow> string list \<times> versionRelease list" where
  "visitVersion point idx st v =
     (if v \<in> set (fst st) then st
      else (v # fst st,
            snd st @ [\<lparr> version = v, releaseDate = date point, index = idx,
                        releaseDownloads = downloads point \<rparr>]))"

definition visitPoint ::
  "string list \<times> versionRelease list \<Rightarrow> nat \<times> dataPoint
     \<Rightarrow> string list \<times> versionRelease list" where
  "visitPoint st ip = foldl (visitVersion (snd ip) (fst ip)) st (map fst (versions (snd ip)))"

definition collectVersions :: "dataPoint list \<Rightarrow> versionRelease list" where
  "collectVersions dps = snd (foldl visitPoint ([], []) (enumerate 0 dps))"

text \<open>
  \<open>compareVersions\<close>. The collation \<open>String.prototype.localeCompare\<close> belongs to the
  runtime and is a parameter \<open>lc\<close>.
\<close>

definition isDashOrPlus :: "char \<Rightarrow> bool" where
  "isDashOrPlus c = (c = CHR ''-'' \<or> c = CHR ''+'')"

definition isDash :: "char \<Rightarrow> bool" where
  "isDash c = (c = CHR ''-'')"

definition baseParts :: "string \<Rightarrow> int option list" where
  "baseParts a =
     map (\<lambda>part. Some (orZero (parseInt10 part))) (split_on isDot (hd (split_on isDashOrPlus a)))"

definition compareVersions :: "(string \<Rightarrow> string \<Rightarrow> int) \<Rightarrow> string \<Rightarrow> string \<Rightarrow> int" where
  "compareVersions lc a b =
     (let aParts = baseParts a; bParts = baseParts b
      in case firstDiff (valAt aParts) (valAt bParts) 0 (max (length aParts) (length bParts)) of
           Some (aPart, bPart) \<Rightarrow> aPart - bPart
         | None \<Rightarrow>
             (let aHasPreRelease = (CHR ''-'' \<in> set a);
                  bHasPreRelease = (CHR ''-'' \<in> set b)
              in if \<not> aHasPreRelease \<and> bHasPreRelease then 1
                 else if aHasPreRelease \<and> \<not> bHasPreRelease then - 1
                 else if \<not> aHasPreRelease \<and> \<not> bHasPreRelease then 0
                 else lc (split_on isDash a ! 1) (split_on isDash b ! 1)))"

definition byVersion :: "(string \<Rightarrow> string \<Rightarrow> int) \<Rightarrow> versionRelease \<Rightarrow> versionRelease \<Rightarrow> int" where
  "byVersion lc a b = compareVersions lc (version a) (version b)"

text \<open>The second pass, for the release at position \<open>i\<close> of the sorted array.\<close>

definition nextChronologicalReleaseStartIndex ::
  "nat \<Rightarrow> 'a versionRelease_scheme list \<Rightarrow> nat \<Rightarrow> nat" where
  "nextChronologicalReleaseStartIndex n rels currentVersionStartIndex =
     foldl (\<lambda>nxt otherRelease.
              if index otherRelease > currentVersionStartIndex \<and> index otherRelease < nxt
              then index otherRelease else nxt) n rels"

definition withMetrics :: "versionRelease \<Rightarrow> int \<Rightarrow> int \<Rightarrow> int \<Rightarrow> int \<Rightarrow> measuredRelease" where
  "withMetrics r e c d g =
     \<lparr> version = version r, releaseDate = releaseDate r, index = index r,
       releaseDownloads = releaseDownloads r,
       endDownloads = e, downloadChange = c, durationDays = d, avgDailyGrowth = g \<rparr>"

text \<open>
  The guarded read that the loop body makes twice, of \<open>downloadCounts\<close> and of the dates:
  the element at \<open>lastIdx\<close> when that is an index, else the last element, else a default.
\<close>

definition atOrLast :: "'a list \<Rightarrow> int \<Rightarrow> 'a \<Rightarrow> 'a" where
  "atOrLast xs lastIdx dflt =
     (if 0 \<le> lastIdx \<and> lastIdx < int (length xs) then xs ! nat lastIdx
      else if length xs > 0 then xs ! (length xs - 1)
      else dflt)"

definition supersededAtSameIndex :: "'a versionRelease_scheme list \<Rightarrow> nat \<Rightarrow> bool" where
  "supersededAtSameIndex rels i = (i + 1 < length rels \<and> index (rels ! (i + 1)) = index (rels ! i))"

definition durationDaysOf :: "int \<Rightarrow> int" where
  "durationDaysOf durationMs = max 1 (Math_round (of_int durationMs / (1000 * 60 * 60 * 24)))"

definition activePeriodMetrics ::
  "dataPoint list \<Rightarrow> versionRelease list \<Rightarrow> versionRelease \<Rightarrow> error + measuredRelease" where
  "activePeriodMetrics dps rels currentVersionRelease =
     (let currentVersionStartIndex = index currentVersionRelease;
          lastIdx =
            int (nextChronologicalReleaseStartIndex (length dps) rels currentVersionStartIndex) - 1;
          startDownloads = releaseDownloads currentVersionRelease;
          endDl = atOrLast (map downloads dps) lastIdx startDownloads;
          change = endDl - startDownloads
      in if \<not> currentVersionStartIndex < length dps then Inl TypeError
         else
           (let startDate = date (dps ! currentVersionStartIndex);
                endDate = atOrLast (map date dps) lastIdx startDate;
                days = durationDaysOf (endDate - startDate);
                growth = Math_round (of_int change / of_int days)
            in Inr (withMetrics currentVersionRelease endDl change days growth)))"

definition computeMetrics :: "dataPoint list \<Rightarrow> versionRelease list \<Rightarrow> nat \<Rightarrow> error + measuredRelease" where
  "computeMetrics dps rels i =
     (if supersededAtSameIndex rels i
      then Inr (withMetrics (rels ! i) (releaseDownloads (rels ! i)) 0 0 0)
      else activePeriodMetrics dps rels (rels ! i))"

definition sortedReleases :: "(string \<Rightarrow> string \<Rightarrow> int) \<Rightarrow> dataPoint list \<Rightarrow> versionRelease list" where
  "sortedReleases lc dps = sort_js (byVersion lc) (collectVersions dps)"

text \<open>A loop that stops at the first exception.\<close>

fun traverse :: "('a \<Rightarrow> error + 'b) \<Rightarrow> 'a list \<Rightarrow> error + 'b list" where
  "traverse f [] = Inr []"
| "traverse f (x # xs) =
     (case f x of
        Inl e \<Rightarrow> Inl e
      | Inr y \<Rightarrow> (case traverse f xs of Inl e \<Rightarrow> Inl e | Inr ys \<Rightarrow> Inr (y # ys)))"

section \<open>Rolling averages\<close>

definition rollingAverage :: "nat \<Rightarrow> (int \<times> int) list \<Rightarrow> (int \<times> int) list" where
  "rollingAverage windowSize derivative =
     map (\<lambda>i. let startIdx = nat (max 0 (int i - int windowSize + 1));
                  windowValues = map snd (slice derivative startIdx (i + 1));
                  total = foldl (\<lambda>acc val. acc + val) 0 windowValues;
                  avg = (if length windowValues > 0
                         then of_int total / of_int (int (length windowValues)) else 0)
              in (fst (derivative ! i), Math_round avg))
         [0..<length derivative]"

section \<open>The script\<close>

text \<open>
  A \<open>Date\<close> is its time value; it is valid within 8.64e15 ms of the epoch, and
  \<open>toISOString\<close> throws a \<open>RangeError\<close> on any other. The script first builds the
  data points and tags them, then renders the dates (where an invalid one throws), then
  reads \<open>dataPoints[0].date\<close> (which throws a \<open>TypeError\<close> on the empty array), then
  makes the two passes over the releases and computes the rolling averages. The
  \<open>report\<close> holds the values that go into the page; the colours, the chart datasets
  and the HTML text are left out.
\<close>

definition validTime :: "int \<Rightarrow> bool" where
  "validTime t = (\<bar>t\<bar> \<le> 8640000000000000)"

record report =
  dates :: "int list"
  downloadCounts :: "int list"
  currentVersions :: "string option list"
  derivativeData :: "(int \<times> int) list"
  oldestDate :: int
  newestDate :: int
  versionReleases :: "measuredRelease list"
  rollingAverageData7Day :: "(int \<times> int) list"
  rollingAverageData30Day :: "(int \<times> int) list"

definition generateChart ::
  "(string \<Rightarrow> 'n::{linorder,zero} option) \<Rightarrow> (string \<Rightarrow> string \<Rightarrow> int) \<Rightarrow> historicalData
     \<Rightarrow> error + report" where
  "generateChart num lc h =
     (let points = dataPoints h;
          tags = tagPoints num None points
      in if \<exists>p \<in> set points. \<not> validTime (date p) then Inl RangeError
         else if points = [] then Inl TypeError
         else
           (let derivative = map (\<lambda>p. (date p, dailyGrowth p)) points;
                rels = sortedReleases lc points
            in case traverse (computeMetrics points rels) [0..<length rels] of
                 Inl e \<Rightarrow> Inl e
               | Inr measured \<Rightarrow>
                   Inr \<lparr> dates = map date points,
                         downloadCounts = map downloads points,
                         currentVersions = tags,
                         derivativeData = derivative,
                         oldestDate = date (points ! 0),
                         newestDate = date (points ! (length points - 1)),
                         versionReleases = measured,
                         rollingAverageData7Day = rollingAverage 7 derivative,
                         rollingAverageData30Day = rollingAverage 30 derivative \<rparr>))"

section \<open>Reference notions of the specification\<close>

text \<open>
  A collation for closed examples: the order of the code units, as \<open>-1\<close>, \<open>0\<close> or \<open>1\<close>.
\<close>

fun codeUnitCompare :: "string \<Rightarrow> string \<Rightarrow> int" where
  "codeUnitCompare [] [] = 0"
| "codeUnitCompare [] (y # ys) = - 1"
| "codeUnitCompare (x # xs) [] = 1"
| "codeUnitCompare (x # xs) (y # ys) =
     (if (of_char x :: nat) < of_char y then - 1
      else if (of_char y :: nat) < of_char x then 1
      else codeUnitCompare xs ys)"

text \<open>A member of \<open>data\<close> that is absent or falsy.\<close>

fun absentOrFalsy :: "jval option \<Rightarrow> bool" where
  "absentOrFalsy (Some (JNum n)) = (n = 0)"
| "absentOrFalsy _ = True"

text \<open>
  The boundary of the specification (4.3, step 3): the smallest \<open>firstSeenIndex\<close> strictly
  greater than that of the release, the length of the series when there is none.
\<close>

definition nextBoundaryIndex :: "nat \<Rightarrow> nat list \<Rightarrow> nat \<Rightarrow> nat" where
  "nextBoundaryIndex n firstSeen cur =
     (if filter (\<lambda>k. cur < k) firstSeen = [] then n
      else Min (set (filter (\<lambda>k. cur < k) firstSeen)))"


text \<open>
  The mean of the specification (4.4): of the growth values at
  \<open>[max(0, i-w+1), i]\<close>.
\<close>

definition windowMean :: "nat \<Rightarrow> int list \<Rightarrow> nat \<Rightarrow> rat" where
  "windowMean w g i =
     of_int (sum_list (map (\<lambda>j. g ! j) [(i + 1) - w ..< i + 1]))
       / of_int (int (i + 1 - ((i + 1) - w)))"

text \<open>
  Modelled from the spec: the anomaly filter of the snapshot extractor
  (extract-plugin-stats.js, whose source is missing), 4.1: a revision's
  snapshot is accepted only if its \<open>totalCount\<close> is greater than or equal to that of the
  last accepted snapshot; a strictly smaller one is dropped and does not move the
  baseline; a revision lacking a valid counter, or the entity, is skipped. A revision is
  its time stamp and the record of the entity, when it has one; \<open>lastAccepted\<close> is the
  baseline.
\<close>

fun acceptRevisions :: "int option \<Rightarrow> (int \<times> entryData option) list \<Rightarrow> historicalData" where
  "acceptRevisions lastAccepted [] = []"
| "acceptRevisions lastAccepted ((t, None) # rest) = acceptRevisions lastAccepted rest"
| "acceptRevisions lastAccepted ((t, Some d) # rest) =
     (case map_of d ''downloads'' of
        Some (JNum n) \<Rightarrow>
          (if lastAccepted = None \<or> the lastAccepted \<le> n
           then (t, d) # acceptRevisions (Some n) rest
           else acceptRevisions lastAccepted rest)
      | _ \<Rightarrow> acceptRevisions lastAccepted rest)"

text \<open>Closed inputs for the examples.\<close>

definition twoDays :: historicalData where
  "twoDays = [(0, [(''downloads'', JNum 100)]), (86400000, [(''downloads'', JNum 150)])]"

definition sameIndex :: historicalData where
  "sameIndex = [(0, [(''downloads'', JNum 100), (''1.0.1'', JNum 60), (''1.0.2'', JNum 40)])]"


definition endToEnd :: historicalData where
  "endToEnd =
     [(0, [(''downloads'', JNum 100)]),
      (86400000, [(''downloads'', JNum 150), (''1.0.0'', JNum 50)]),
      (172800000, [(''downloads'', JNum 200), (''1.0.0'', JNum 100)]),
      (259200000, [(''downloads'', JNum 260), (''1.0.0'', JNum 110), (''1.1.0'', JNum 50)])]"

text \<open>A release stub that records the data point at its index.\<close>

definition releaseAt :: "dataPoint list \<Rightarrow> versionRelease \<Rightarrow> bool" where
  "releaseAt dps r =
     (index r < length dps \<and> releaseDownloads r = downloads (dps ! index r)
      \<and> releaseDate r = date (dps ! index r))"

definition sameIndexReport :: report where
  "sameIndexReport = projr (generateChart Number_js codeUnitCompare sameIndex)"

definition endToEndReport :: report where
  "endToEndReport = projr (generateChart Number_js codeUnitCompare endToEnd)"


definition threeGrowths :: historicalData where
  "threeGrowths =
     [(0, [(''downloads'', JNum 10), (''dailyGrowth'', JNum 10)]),
      (86400000, [(''downloads'', JNum 30), (''dailyGrowth'', JNum 20)]),
      (172800000, [(''downloads'', JNum 60), (''dailyGrowth'', JNum 30)])]"

definition threeGrowthsReport :: report where
  "threeGrowthsReport = projr (generateChart Number_js codeUnitCompare threeGrowths)"

definition fourRevisions :: "(int \<times> entryData option) list" where
  "fourRevisions =
     [(0, Some [(''downloads'', JNum 100)]),
      (86400000, Some [(''downloads'', JNum 250)]),
      (172800000, Some [(''downloads'', JNum 90)]),
      (259200000, Some [(''downloads'', JNum 300)])]"



definition shuffled :: historicalData where
  "shuffled =
     [(172800000, [(''downloads'', JNum 30)]),
      (86400000, [(''downloads'', JNum 10)]),
      (172800000, [(''downloads'', JNum 40)]),
      (86400000, [(''downloads'', JNum 20)])]"


section \<open>Properties of the primitives\<close>

text \<open>\<open>Number\<close> on some strings.\<close>

lemma Number_js_examples:
  "Number_js ''2'' = Some (Finite 2)"
  "Number_js '''' = Some (Finite 0)"
  "Number_js '' 12 '' = Some (Finite 12)"
  "Number_js ''9-beta'' = None"
  "Number_js ''1e3'' = Some (Finite 1000)"
  "Number_js ''0x10'' = Some (Finite 16)"
  "Number_js ''Infinity'' = Some PosInfinity"
  "Number_js ''-Infinity'' = Some NegInfinity"
  "Number_js ''9007199254740993'' = Some (Finite 9007199254740992)"
  by code_simp+


lemma insert_js_key:
  "(\<And>a b. (cmp a b \<le> 0) = (f a \<le> f b)) \<Longrightarrow> insert_js cmp x xs = insort_key f x xs"
  by (induction xs) auto

lemma sort_js_key:
  assumes "\<And>a b. (cmp a b \<le> 0) = (f a \<le> f b)"
  shows "sort_js cmp xs = sort_key f xs"
proof (induction xs)
  case Nil
  show ?case by simp
next
  case (Cons x xs)
  then show ?case using insert_js_key [of cmp f, OF assms] by simp
qed

lemma mset_insert_js: "mset (insert_js cmp x xs) = add_mset x (mset xs)"
  by (induction xs) auto

lemma mset_sort_js: "mset (sort_js cmp xs) = mset xs"
  by (induction xs) (auto simp: mset_insert_js)

lemma set_sort_js: "set (sort_js cmp xs) = set xs"
  using mset_sort_js [of cmp xs] by (metis set_mset_mset)

lemma length_sort_js: "length (sort_js cmp xs) = length xs"
  using mset_sort_js [of cmp xs] by (metis size_mset)

lemma dataPoints_sort_key: "dataPoints h = sort_key date (map mkPoint h)"
  unfolding dataPoints_def by (rule sort_js_key) (auto simp: byDate_def)

section \<open>The normalizer\<close>

lemma sorted_dataPoints: "sorted (map date (dataPoints h))"
  by (simp add: dataPoints_sort_key)

lemma mset_dataPoints: "mset (dataPoints h) = mset (map mkPoint h)"
  by (simp add: dataPoints_def mset_sort_js)

lemma set_dataPoints: "set (dataPoints h) = mkPoint ` set h"
  by (simp add: dataPoints_def set_sort_js)

lemma length_dataPoints: "length (dataPoints h) = length h"
  by (simp add: dataPoints_def length_sort_js)

lemma mkPoint_absent:
  "absentOrFalsy (map_of (snd e) ''downloads'') \<Longrightarrow> downloads (mkPoint e) = 0"
  "absentOrFalsy (map_of (snd e) ''dailyGrowth'') \<Longrightarrow> dailyGrowth (mkPoint e) = 0"
  by (cases "map_of (snd e) ''downloads''" rule: absentOrFalsy.cases;
      cases "map_of (snd e) ''dailyGrowth''" rule: absentOrFalsy.cases;
      simp add: mkPoint_def)+

lemma dataPoints_stable:
  "filter (\<lambda>p. date p = t) (dataPoints h) = filter (\<lambda>p. date p = t) (map mkPoint h)"
  unfolding dataPoints_sort_key by (rule sort_key_stable)

text \<open>
  C1 (as the code has it): the data points are the entries of the file in ascending
  order of time stamp, entries with the same time value keeping the order that they have
  in the file, and an entry without a \<open>dailyGrowth\<close> member becomes a data point whose
  \<open>dailyGrowth\<close> is 0, whatever its position: the script takes no difference of totals.
\<close>

theorem normalizer_sorts_and_defaults_growth:
  "sorted (map date (dataPoints h)) \<and>
   mset (dataPoints h) = mset (map mkPoint h) \<and>
   (\<forall>t. filter (\<lambda>p. date p = t) (dataPoints h) = filter (\<lambda>p. date p = t) (map mkPoint h)) \<and>
   (\<forall>e \<in> set h. map_of (snd e) ''dailyGrowth'' = None \<longrightarrow>
      mkPoint e \<in> set (dataPoints h) \<and> date (mkPoint e) = fst e \<and> dailyGrowth (mkPoint e) = 0)"
  using dataPoints_stable [of _ h]
  by (auto simp: sorted_dataPoints mset_dataPoints set_dataPoints mkPoint_def)

theorem normalizer_sorts_and_defaults_growth_witness:
  "(86400000, [(''downloads'', JNum 20)]) \<in> set shuffled \<and>
   map_of (snd (86400000 :: int, [(''downloads'', JNum 20)])) ''dailyGrowth'' = None \<and>
   map date (map mkPoint shuffled) = [172800000, 86400000, 172800000, 86400000] \<and>
   map date (dataPoints shuffled) = [86400000, 86400000, 172800000, 172800000] \<and>
   map downloads (dataPoints shuffled) = [10, 20, 30, 40] \<and>
   sorted (map date (dataPoints shuffled)) \<and>
   map downloads (filter (\<lambda>p. date p = 172800000) (dataPoints shuffled)) = [30, 40] \<and>
   map downloads (filter (\<lambda>p. date p = 172800000) (map mkPoint shuffled)) = [30, 40] \<and>
   dailyGrowth (mkPoint (86400000, [(''downloads'', JNum 20)])) = 0"
proof -
  have h: "(86400000, [(''downloads'', JNum 20)]) \<in> set shuffled"
    and a: "map_of (snd (86400000 :: int, [(''downloads'', JNum 20)])) ''dailyGrowth'' = None"
    by (simp_all add: shuffled_def)
  have v: "map date (map mkPoint shuffled) = [172800000, 86400000, 172800000, 86400000]"
    "map date (dataPoints shuffled) = [86400000, 86400000, 172800000, 172800000]"
    "map downloads (dataPoints shuffled) = [10, 20, 30, 40]"
    "map downloads (filter (\<lambda>p. date p = 172800000) (map mkPoint shuffled)) = [30, 40]"
    by code_simp+
  from normalizer_sorts_and_defaults_growth [of shuffled]
  have "sorted (map date (dataPoints shuffled))"
    and "filter (\<lambda>p. date p = 172800000) (dataPoints shuffled)
           = filter (\<lambda>p. date p = 172800000) (map mkPoint shuffled)"
    and "dailyGrowth (mkPoint (86400000, [(''downloads'', JNum 20)])) = 0"
    using h a by blast+
  with h a v show ?thesis by simp
qed

text \<open>
  C1 as stated fails: the second of two snapshots without \<open>dailyGrowth\<close>, with totals
  100 and 150, gets the growth 0 and not 50.
\<close>

theorem growth_not_differenced_counterexample:
  "map_of (snd (twoDays ! 1)) ''dailyGrowth'' = None \<and>
   dailyGrowth (dataPoints twoDays ! 1)
     \<noteq> downloads (dataPoints twoDays ! 1) - downloads (dataPoints twoDays ! 0)"
  by (simp add: twoDays_def dataPoints_def mkPoint_def byDate_def)

section \<open>The empty series\<close>

text \<open>
  C3: on a file with no snapshot the script does not reach the report: reading
  \<open>dataPoints[0].date\<close> throws a \<open>TypeError\<close>.
\<close>

theorem empty_series_raises: "generateChart num lc [] = Inl TypeError"
  by (simp add: generateChart_def dataPoints_def)

section \<open>The two passes over the releases\<close>

lemma foldl_invariant:
  assumes "P st" and "\<And>s x. P s \<Longrightarrow> x \<in> set xs \<Longrightarrow> P (f s x)"
  shows "P (foldl f st xs)"
  using assms by (induction xs arbitrary: st) auto

lemma visitVersion_releaseAt:
  assumes "\<forall>r \<in> set (snd st). releaseAt dps r" and "idx < length dps"
  shows "\<forall>r \<in> set (snd (visitVersion (dps ! idx) idx st v)). releaseAt dps r"
  using assms by (auto simp: visitVersion_def releaseAt_def)

lemma visitPoint_releaseAt:
  assumes "\<forall>r \<in> set (snd st). releaseAt dps r" and "ip \<in> set (enumerate 0 dps)"
  shows "\<forall>r \<in> set (snd (visitPoint st ip)). releaseAt dps r"
proof -
  obtain idx point where ip: "ip = (idx, point)" by (cases ip)
  from assms(2) have idx: "idx < length dps" and pt: "point = dps ! idx"
    by (simp_all add: ip in_set_enumerate_eq)
  let ?P = "\<lambda>s :: string list \<times> versionRelease list. \<forall>r \<in> set (snd s). releaseAt dps r"
  have "?P (foldl (visitVersion (dps ! idx) idx) st (map fst (versions (dps ! idx))))"
  proof (rule foldl_invariant [where P = ?P])
    show "?P st" by (rule assms(1))
  next
    fix s v
    assume "?P s"
    then show "?P (visitVersion (dps ! idx) idx s v)"
      using idx by (rule visitVersion_releaseAt)
  qed
  then show ?thesis by (simp add: visitPoint_def ip pt)
qed

lemma collectVersions_releaseAt:
  assumes "r \<in> set (collectVersions dps)"
  shows "releaseAt dps r"
proof -
  let ?P = "\<lambda>s :: string list \<times> versionRelease list. \<forall>r \<in> set (snd s). releaseAt dps r"
  have "?P (foldl visitPoint ([], []) (enumerate 0 dps))"
  proof (rule foldl_invariant [where P = ?P])
    show "?P ([], [])" by simp
  next
    fix s x
    assume "?P s" and "x \<in> set (enumerate 0 dps)"
    then show "?P (visitPoint s x)" by (rule visitPoint_releaseAt)
  qed
  with assms show ?thesis by (simp add: collectVersions_def)
qed

lemma sortedReleases_releaseAt:
  assumes "i < length (sortedReleases lc dps)"
  shows "releaseAt dps (sortedReleases lc dps ! i)"
proof -
  have "sortedReleases lc dps ! i \<in> set (sortedReleases lc dps)"
    using assms by (rule nth_mem)
  then have "sortedReleases lc dps ! i \<in> set (collectVersions dps)"
    by (simp add: sortedReleases_def set_sort_js)
  then show ?thesis by (rule collectVersions_releaseAt)
qed

lemma traverse_Inr:
  "traverse f xs = Inr ys \<Longrightarrow>
     length ys = length xs \<and> (\<forall>i < length xs. f (xs ! i) = Inr (ys ! i))"
proof (induction xs arbitrary: ys)
  case Nil
  then show ?case by simp
next
  case (Cons x xs)
  then obtain y ys' where y: "f x = Inr y" and ys': "traverse f xs = Inr ys'" and eq: "ys = y # ys'"
    by (auto split: sum.splits)
  from Cons.IH [OF ys'] show ?case
    by (auto simp: eq y nth_Cons split: nat.splits)
qed

lemma traverse_total:
  "(\<And>x. x \<in> set xs \<Longrightarrow> \<exists>y. f x = Inr y) \<Longrightarrow> \<exists>ys. traverse f xs = Inr ys"
proof (induction xs)
  case Nil
  show ?case by simp
next
  case (Cons x xs)
  then obtain y where "f x = Inr y" by auto
  moreover from Cons obtain ys where "traverse f xs = Inr ys" by auto
  ultimately show ?case by simp
qed

lemma activePeriodMetrics_eq:
  assumes "index r < length dps"
  shows "activePeriodMetrics dps rels r =
     Inr (withMetrics r
       (atOrLast (map downloads dps)
          (int (nextChronologicalReleaseStartIndex (length dps) rels (index r)) - 1)
          (releaseDownloads r))
       (atOrLast (map downloads dps)
          (int (nextChronologicalReleaseStartIndex (length dps) rels (index r)) - 1)
          (releaseDownloads r) - releaseDownloads r)
       (durationDaysOf
          (atOrLast (map date dps)
             (int (nextChronologicalReleaseStartIndex (length dps) rels (index r)) - 1)
             (date (dps ! index r)) - date (dps ! index r)))
       (Math_round (of_int (atOrLast (map downloads dps)
          (int (nextChronologicalReleaseStartIndex (length dps) rels (index r)) - 1)
          (releaseDownloads r) - releaseDownloads r)
         / of_int (durationDaysOf
          (atOrLast (map date dps)
             (int (nextChronologicalReleaseStartIndex (length dps) rels (index r)) - 1)
             (date (dps ! index r)) - date (dps ! index r))))))"
  unfolding activePeriodMetrics_def Let_def using assms by (simp only: not_True_eq_False if_False)

lemma computeMetrics_total:
  "index (rels ! i) < length dps \<Longrightarrow> \<exists>m. computeMetrics dps rels i = Inr m"
  unfolding computeMetrics_def by (simp only: activePeriodMetrics_eq split: if_split) blast

lemma computeMetrics_stub:
  assumes "computeMetrics dps rels i = Inr m"
  shows "version m = version (rels ! i) \<and> index m = index (rels ! i)
     \<and> releaseDownloads m = releaseDownloads (rels ! i) \<and> releaseDate m = releaseDate (rels ! i)"
proof (cases "supersededAtSameIndex rels i")
  case True
  with assms show ?thesis by (auto simp: computeMetrics_def withMetrics_def)
next
  case False
  with assms have a: "activePeriodMetrics dps rels (rels ! i) = Inr m"
    by (simp add: computeMetrics_def)
  then have "index (rels ! i) < length dps"
    unfolding activePeriodMetrics_def Let_def by (simp split: if_split_asm)
  from activePeriodMetrics_eq [OF this, of rels] a show ?thesis
    by (auto simp: withMetrics_def)
qed

section \<open>What a completed run returns\<close>

lemma generateChart_Inr:
  assumes "generateChart num lc h = Inr out"
  shows "h \<noteq> []"
    and "\<forall>p \<in> set (dataPoints h). validTime (date p)"
    and "dates out = map date (dataPoints h)"
    and "downloadCounts out = map downloads (dataPoints h)"
    and "currentVersions out = tagPoints num None (dataPoints h)"
    and "derivativeData out = map (\<lambda>p. (date p, dailyGrowth p)) (dataPoints h)"
    and "rollingAverageData7Day out = rollingAverage 7 (derivativeData out)"
    and "rollingAverageData30Day out = rollingAverage 30 (derivativeData out)"
    and "traverse (computeMetrics (dataPoints h) (sortedReleases lc (dataPoints h)))
           [0..<length (sortedReleases lc (dataPoints h))] = Inr (versionReleases out)"
proof -
  have ne: "dataPoints h \<noteq> []" and valid: "\<forall>p \<in> set (dataPoints h). validTime (date p)"
    using assms unfolding generateChart_def Let_def by (auto split: if_split_asm)
  from ne show "h \<noteq> []" by (auto simp: dataPoints_def)
  from valid show "\<forall>p \<in> set (dataPoints h). validTime (date p)" .
  obtain measured where
    tr: "traverse (computeMetrics (dataPoints h) (sortedReleases lc (dataPoints h)))
           [0..<length (sortedReleases lc (dataPoints h))] = Inr measured"
    using assms ne valid unfolding generateChart_def Let_def
    by (auto split: if_split_asm sum.split_asm)
  have out: "out = \<lparr> dates = map date (dataPoints h),
                      downloadCounts = map downloads (dataPoints h),
                      currentVersions = tagPoints num None (dataPoints h),
                      derivativeData = map (\<lambda>p. (date p, dailyGrowth p)) (dataPoints h),
                      oldestDate = date (dataPoints h ! 0),
                      newestDate = date (dataPoints h ! (length (dataPoints h) - 1)),
                      versionReleases = measured,
                      rollingAverageData7Day =
                        rollingAverage 7 (map (\<lambda>p. (date p, dailyGrowth p)) (dataPoints h)),
                      rollingAverageData30Day =
                        rollingAverage 30 (map (\<lambda>p. (date p, dailyGrowth p)) (dataPoints h)) \<rparr>"
    using assms ne valid tr unfolding generateChart_def Let_def by simp
  show "dates out = map date (dataPoints h)"
    and "downloadCounts out = map downloads (dataPoints h)"
    and "currentVersions out = tagPoints num None (dataPoints h)"
    and "derivativeData out = map (\<lambda>p. (date p, dailyGrowth p)) (dataPoints h)"
    and "rollingAverageData7Day out = rollingAverage 7 (derivativeData out)"
    and "rollingAverageData30Day out = rollingAverage 30 (derivativeData out)"
    by (simp_all add: out)
  show "traverse (computeMetrics (dataPoints h) (sortedReleases lc (dataPoints h)))
           [0..<length (sortedReleases lc (dataPoints h))] = Inr (versionReleases out)"
    by (simp add: out tr)
qed

lemma generateChart_releases:
  assumes "generateChart num lc h = Inr out"
  shows "length (versionReleases out) = length (sortedReleases lc (dataPoints h))"
    and "i < length (versionReleases out) \<Longrightarrow>
           computeMetrics (dataPoints h) (sortedReleases lc (dataPoints h)) i
             = Inr (versionReleases out ! i)"
proof -
  note tr = traverse_Inr [OF generateChart_Inr(9) [OF assms]]
  from tr show len: "length (versionReleases out) = length (sortedReleases lc (dataPoints h))"
    by simp
  assume "i < length (versionReleases out)"
  with tr len show "computeMetrics (dataPoints h) (sortedReleases lc (dataPoints h)) i
             = Inr (versionReleases out ! i)"
    by (metis add_0 diff_zero length_upt nth_upt)
qed

lemma generateChart_total:
  assumes "h \<noteq> []" and "\<forall>e \<in> set h. validTime (fst e)"
  shows "\<exists>out. generateChart num lc h = Inr out"
proof -
  have ne: "dataPoints h \<noteq> []"
    using assms(1) length_dataPoints [of h] by auto
  have valid: "\<not> (\<exists>p \<in> set (dataPoints h). \<not> validTime (date p))"
    using assms(2) by (auto simp: set_dataPoints mkPoint_def)
  have "\<exists>ms. traverse (computeMetrics (dataPoints h) (sortedReleases lc (dataPoints h)))
           [0..<length (sortedReleases lc (dataPoints h))] = Inr ms"
  proof (rule traverse_total)
    fix i
    assume "i \<in> set [0..<length (sortedReleases lc (dataPoints h))]"
    then have "releaseAt (dataPoints h) (sortedReleases lc (dataPoints h) ! i)"
      by (simp add: sortedReleases_releaseAt)
    then show "\<exists>m. computeMetrics (dataPoints h) (sortedReleases lc (dataPoints h)) i = Inr m"
      by (simp add: releaseAt_def computeMetrics_total)
  qed
  then obtain ms where "traverse (computeMetrics (dataPoints h) (sortedReleases lc (dataPoints h)))
           [0..<length (sortedReleases lc (dataPoints h))] = Inr ms" ..
  then show ?thesis
    using ne valid unfolding generateChart_def Let_def by simp
qed

lemma release_index:
  assumes "generateChart num lc h = Inr out" and "i < length (versionReleases out)"
  shows "index (versionReleases out ! i) = index (sortedReleases lc (dataPoints h) ! i)"
    and "version (versionReleases out ! i) = version (sortedReleases lc (dataPoints h) ! i)"
    and "releaseDownloads (versionReleases out ! i)
           = releaseDownloads (sortedReleases lc (dataPoints h) ! i)"
  using computeMetrics_stub [OF generateChart_releases(2) [OF assms]] by simp_all

lemma superseded_transfer:
  assumes "generateChart num lc h = Inr out" and "i < length (versionReleases out)"
  shows "supersededAtSameIndex (sortedReleases lc (dataPoints h)) i
           = (i + 1 < length (versionReleases out)
              \<and> index (versionReleases out ! (i + 1)) = index (versionReleases out ! i))"
  using release_index(1) [OF assms] release_index(1) [OF assms(1), of "i + 1"]
    generateChart_releases(1) [OF assms(1)]
  by (auto simp: supersededAtSameIndex_def)

section \<open>The boundary of a release\<close>

lemma nextChronological_Min:
  "nextChronologicalReleaseStartIndex n rels cur
     = Min (insert n (set (filter (\<lambda>k. cur < k) (map index rels))))"
proof (induction rels arbitrary: n)
  case Nil
  show ?case by (simp add: nextChronologicalReleaseStartIndex_def)
next
  case (Cons r rels)
  let ?S = "set (filter (\<lambda>k. cur < k) (map index rels))"
  have fin: "finite ?S" by simp
  have step: "nextChronologicalReleaseStartIndex n (r # rels) cur
      = nextChronologicalReleaseStartIndex
          (if cur < index r \<and> index r < n then index r else n) rels cur"
    by (simp add: nextChronologicalReleaseStartIndex_def)
  show ?case
  proof (cases "cur < index r")
    case False
    then show ?thesis using Cons.IH [of n] by (simp add: step)
  next
    case True
    have "Min (insert (min (index r) n) ?S) = Min (insert n (insert (index r) ?S))"
      using fin by (cases "?S = {}") (simp_all add: min.commute min.left_commute)
    moreover have "(if index r < n then index r else n) = min (index r) n"
      by (simp add: min_def)
    ultimately show ?thesis using True Cons.IH [of "min (index r) n"]
      by (simp add: step)
  qed
qed

lemma nextChronological_boundary:
  assumes "\<forall>r \<in> set rels. index r < n"
  shows "nextChronologicalReleaseStartIndex n rels cur = nextBoundaryIndex n (map index rels) cur"
proof (cases "filter (\<lambda>k. cur < k) (map index rels) = []")
  case True
  then show ?thesis by (simp add: nextChronological_Min nextBoundaryIndex_def)
next
  case False
  let ?S = "set (filter (\<lambda>k. cur < k) (map index rels))"
  from False have ne: "?S \<noteq> {}" by (simp only: set_empty not_False_eq_True)
  have "\<forall>k \<in> ?S. k < n" using assms by auto
  moreover have "Min ?S \<in> ?S" using ne by (intro Min_in) simp_all
  ultimately have "Min ?S < n" by blast
  moreover have "Min (insert n ?S) = min n (Min ?S)"
    using ne by (intro Min_insert) simp_all
  ultimately have "Min (insert n ?S) = Min ?S" by (simp only: min_def) simp
  with False show ?thesis
    unfolding nextChronological_Min nextBoundaryIndex_def by (simp only: if_False)
qed

lemma nextChronological_bounds:
  assumes "cur < n"
  shows "cur < nextChronologicalReleaseStartIndex n rels cur"
    and "nextChronologicalReleaseStartIndex n rels cur \<le> n"
  using assms by (auto simp: nextChronological_Min)

lemma atOrLast_in_range:
  "0 < k \<Longrightarrow> k \<le> length xs \<Longrightarrow> atOrLast xs (int k - 1) d = xs ! (k - 1)"
  by (simp add: atOrLast_def nat_diff_distrib')

lemma Math_round_nearest: "\<bar>of_int (Math_round x) - x\<bar> \<le> 1 / 2"
  unfolding Math_round_def by linarith

lemma durationDaysOf_ge_1: "1 \<le> durationDaysOf ms"
  by (simp add: durationDaysOf_def)

lemma durationDaysOf_short: "0 \<le> ms \<Longrightarrow> ms < 86400000 \<Longrightarrow> durationDaysOf ms = 1"
proof -
  assume "0 \<le> ms" "ms < 86400000"
  then have "(of_int ms :: rat) / (1000 * 60 * 60 * 24) + 1 / 2 < 2"
    by simp
  then have "Math_round (of_int ms / (1000 * 60 * 60 * 24)) \<le> 1"
    unfolding Math_round_def by linarith
  then show ?thesis by (simp add: durationDaysOf_def)
qed

section \<open>The metrics of a release\<close>

lemma map_index_releases:
  assumes "generateChart num lc h = Inr out"
  shows "map index (versionReleases out) = map index (sortedReleases lc (dataPoints h))"
    and "map version (versionReleases out) = map version (sortedReleases lc (dataPoints h))"
  using generateChart_releases(1) [OF assms] release_index(1,2) [OF assms]
  by (auto intro!: nth_equalityI)

lemma superseded_release:
  assumes gen: "generateChart num lc h = Inr out"
    and i: "i < length (versionReleases out)"
    and sup: "i + 1 < length (versionReleases out)
              \<and> index (versionReleases out ! (i + 1)) = index (versionReleases out ! i)"
  shows "versionReleases out ! i
           = withMetrics (sortedReleases lc (dataPoints h) ! i)
               (releaseDownloads (sortedReleases lc (dataPoints h) ! i)) 0 0 0"
proof -
  have "supersededAtSameIndex (sortedReleases lc (dataPoints h)) i"
    using sup by (simp only: superseded_transfer [OF gen i])
  then show ?thesis
    using generateChart_releases(2) [OF gen i] by (simp add: computeMetrics_def)
qed

lemma active_release:
  assumes gen: "generateChart num lc h = Inr out"
    and i: "i < length (versionReleases out)"
    and act: "\<not> (i + 1 < length (versionReleases out)
              \<and> index (versionReleases out ! (i + 1)) = index (versionReleases out ! i))"
  defines "r \<equiv> versionReleases out ! i"
    and "pts \<equiv> dataPoints h"
  defines "nb \<equiv> nextBoundaryIndex (length pts) (map index (versionReleases out)) (index r)"
  shows "index r < nb" and "nb \<le> length pts"
    and "releaseDownloads r = downloads (pts ! index r)"
    and "endDownloads r = downloads (pts ! (nb - 1))"
    and "downloadChange r = endDownloads r - releaseDownloads r"
    and "durationDays r = durationDaysOf (date (pts ! (nb - 1)) - date (pts ! index r))"
    and "avgDailyGrowth r = Math_round (of_int (downloadChange r) / of_int (durationDays r))"
proof -
  let ?rels = "sortedReleases lc pts"
  let ?s = "?rels ! i"
  have len: "length (versionReleases out) = length ?rels"
    unfolding pts_def by (rule generateChart_releases(1) [OF gen])
  have at: "releaseAt pts ?s"
    using i len by (simp add: sortedReleases_releaseAt)
  have idx: "index r = index ?s" and dl: "releaseDownloads r = releaseDownloads ?s"
    unfolding r_def pts_def using release_index [OF gen i] by simp_all
  have inr: "index ?s < length pts" using at by (simp add: releaseAt_def)
  have all: "\<forall>x \<in> set ?rels. index x < length pts"
    using sortedReleases_releaseAt [of _ lc pts]
    by (auto simp: in_set_conv_nth releaseAt_def)
  have nb: "nextChronologicalReleaseStartIndex (length pts) ?rels (index ?s) = nb"
    unfolding nb_def idx pts_def map_index_releases(1) [OF gen]
    using all unfolding pts_def by (rule nextChronological_boundary)
  have lo: "index ?s < nb" and hi: "nb \<le> length pts"
    using nextChronological_bounds [OF inr, of ?rels] by (simp_all add: nb)
  have "\<not> supersededAtSameIndex ?rels i"
    using act unfolding pts_def superseded_transfer [OF gen i] .
  then have "computeMetrics pts ?rels i = activePeriodMetrics pts ?rels ?s"
    by (simp add: computeMetrics_def)
  then have "Inr r = activePeriodMetrics pts ?rels ?s"
    unfolding r_def pts_def using generateChart_releases(2) [OF gen i] by simp
  then have r: "r = withMetrics ?s
       (downloads (pts ! (nb - 1)))
       (downloads (pts ! (nb - 1)) - releaseDownloads ?s)
       (durationDaysOf (date (pts ! (nb - 1)) - date (pts ! index ?s)))
       (Math_round (of_int (downloads (pts ! (nb - 1)) - releaseDownloads ?s)
          / of_int (durationDaysOf (date (pts ! (nb - 1)) - date (pts ! index ?s)))))"
    using lo hi by (simp add: activePeriodMetrics_eq [OF inr] nb atOrLast_in_range)
  show "index r < nb" using lo idx by simp
  show "nb \<le> length pts" by (rule hi)
  show "releaseDownloads r = downloads (pts ! index r)"
    using at by (simp add: dl idx releaseAt_def)
  show "endDownloads r = downloads (pts ! (nb - 1))"
    by (subst r) (simp add: withMetrics_def)
  show "downloadChange r = endDownloads r - releaseDownloads r"
    by (subst (1 2 3) r) (simp add: withMetrics_def)
  show "durationDays r = durationDaysOf (date (pts ! (nb - 1)) - date (pts ! index r))"
    unfolding idx by (subst r) (simp add: withMetrics_def)
  show "avgDailyGrowth r = Math_round (of_int (downloadChange r) / of_int (durationDays r))"
    by (subst (1 2 3) r) (simp add: withMetrics_def)
qed

section \<open>Claims about the releases\<close>

lemma sameIndex_runs: "generateChart Number_js codeUnitCompare sameIndex = Inr sameIndexReport"
proof -
  have "\<exists>out. generateChart Number_js codeUnitCompare sameIndex = Inr out"
    by (rule generateChart_total) (simp_all add: sameIndex_def validTime_def)
  then show ?thesis by (auto simp: sameIndexReport_def)
qed

lemma endToEnd_runs: "generateChart Number_js codeUnitCompare endToEnd = Inr endToEndReport"
proof -
  have "\<exists>out. generateChart Number_js codeUnitCompare endToEnd = Inr out"
    by (rule generateChart_total) (simp_all add: endToEnd_def validTime_def)
  then show ?thesis by (auto simp: endToEndReport_def)
qed


text \<open>
  C4: a release whose successor in the sorted array has the same \<open>index\<close> keeps its
  downloads at release as \<open>endDownloads\<close> and gets 0 for change, duration and average
  growth; the sorted array is the discovered releases in the order of
  \<open>compareVersions\<close>.
\<close>

theorem superseded_release_is_zeroed:
  assumes "generateChart num lc h = Inr out"
    and "i + 1 < length (versionReleases out)"
    and "index (versionReleases out ! (i + 1)) = index (versionReleases out ! i)"
  shows "map version (versionReleases out)
           = map version (sort_js (byVersion lc) (collectVersions (dataPoints h)))
         \<and> endDownloads (versionReleases out ! i) = releaseDownloads (versionReleases out ! i)
         \<and> downloadChange (versionReleases out ! i) = 0
         \<and> durationDays (versionReleases out ! i) = 0
         \<and> avgDailyGrowth (versionReleases out ! i) = 0"
proof -
  from assms(2) have i: "i < length (versionReleases out)" by simp
  from assms(2,3) have sup: "i + 1 < length (versionReleases out)
      \<and> index (versionReleases out ! (i + 1)) = index (versionReleases out ! i)" by simp
  show ?thesis
    using map_index_releases(2) [OF assms(1)]
    by (simp add: superseded_release [OF assms(1) i sup] withMetrics_def sortedReleases_def)
qed

theorem superseded_release_is_zeroed_witness:
  "generateChart Number_js codeUnitCompare sameIndex = Inr sameIndexReport
   \<and> 0 + 1 < length (versionReleases sameIndexReport)
   \<and> index (versionReleases sameIndexReport ! (0 + 1)) = index (versionReleases sameIndexReport ! 0)
   \<and> map version (versionReleases sameIndexReport) = [''1.0.1'', ''1.0.2'']
   \<and> endDownloads (versionReleases sameIndexReport ! 0) = 100
   \<and> downloadChange (versionReleases sameIndexReport ! 0) = 0
   \<and> durationDays (versionReleases sameIndexReport ! 0) = 0
   \<and> avgDailyGrowth (versionReleases sameIndexReport ! 0) = 0"
proof -
  have h2: "0 + 1 < length (versionReleases sameIndexReport)"
    by code_simp
  have h3: "index (versionReleases sameIndexReport ! (0 + 1)) = index (versionReleases sameIndexReport ! 0)"
    by code_simp
  have v: "map version (versionReleases sameIndexReport) = [''1.0.1'', ''1.0.2'']"
    by code_simp
  have d: "releaseDownloads (versionReleases sameIndexReport ! 0) = 100"
    by code_simp
  show ?thesis
    using superseded_release_is_zeroed [OF sameIndex_runs h2 h3] sameIndex_runs h2 h3 v d
    by simp
qed

text \<open>
  C2 (as the code has it): a release that is not superseded at its own index has a
  duration of at least one day, and of exactly one day when its window is shorter than
  a day. (A superseded release gets the duration 0.)
\<close>

theorem active_release_duration_floor:
  assumes "generateChart num lc h = Inr out"
    and "i < length (versionReleases out)"
    and "\<not> (i + 1 < length (versionReleases out)
            \<and> index (versionReleases out ! (i + 1)) = index (versionReleases out ! i))"
  shows "1 \<le> durationDays (versionReleases out ! i)
         \<and> (date (dataPoints h ! (nextBoundaryIndex (length (dataPoints h))
                       (map index (versionReleases out)) (index (versionReleases out ! i)) - 1))
              - date (dataPoints h ! index (versionReleases out ! i)) < 86400000
            \<longrightarrow> durationDays (versionReleases out ! i) = 1)"
proof -
  let ?r = "versionReleases out ! i"
  let ?nb = "nextBoundaryIndex (length (dataPoints h)) (map index (versionReleases out)) (index ?r)"
  let ?ms = "date (dataPoints h ! (?nb - 1)) - date (dataPoints h ! index ?r)"
  note a = active_release [OF assms]
  have d: "durationDays ?r = durationDaysOf ?ms" by (rule a(6))
  have "index ?r \<le> ?nb - 1" and "?nb - 1 < length (dataPoints h)"
    using a(1,2) by simp_all
  then have "date (dataPoints h ! index ?r) \<le> date (dataPoints h ! (?nb - 1))"
    using sorted_dataPoints [of h] by (simp add: sorted_iff_nth_mono)
  then have "0 \<le> ?ms" by simp
  then show ?thesis
    unfolding d using durationDaysOf_ge_1 [of ?ms] durationDaysOf_short [of ?ms] by blast
qed

theorem active_release_duration_floor_witness:
  "generateChart Number_js codeUnitCompare sameIndex = Inr sameIndexReport
   \<and> 1 < length (versionReleases sameIndexReport)
   \<and> \<not> (1 + 1 < length (versionReleases sameIndexReport)
          \<and> index (versionReleases sameIndexReport ! (1 + 1)) = index (versionReleases sameIndexReport ! 1))
   \<and> date (dataPoints sameIndex ! (nextBoundaryIndex (length (dataPoints sameIndex))
                       (map index (versionReleases sameIndexReport))
                       (index (versionReleases sameIndexReport ! 1)) - 1))
              - date (dataPoints sameIndex ! index (versionReleases sameIndexReport ! 1)) < 86400000
   \<and> durationDays (versionReleases sameIndexReport ! 1) = 1"
proof -
  have h2: "1 < length (versionReleases sameIndexReport)"
    by code_simp
  have h3: "\<not> (1 + 1 < length (versionReleases sameIndexReport)
          \<and> index (versionReleases sameIndexReport ! (1 + 1)) = index (versionReleases sameIndexReport ! 1))"
    by code_simp
  have h4: "date (dataPoints sameIndex ! (nextBoundaryIndex (length (dataPoints sameIndex))
                       (map index (versionReleases sameIndexReport))
                       (index (versionReleases sameIndexReport ! 1)) - 1))
              - date (dataPoints sameIndex ! index (versionReleases sameIndexReport ! 1)) < 86400000"
    by code_simp
  show ?thesis
    using active_release_duration_floor [OF sameIndex_runs h2 h3] sameIndex_runs h2 h3 h4
    by blast
qed

text \<open>
  C2 as stated fails: when \<open>1.0.1\<close> and \<open>1.0.2\<close> first appear in the same snapshot, the
  release \<open>1.0.1\<close> gets the duration 0.
\<close>

theorem duration_floor_counterexample:
  "generateChart Number_js codeUnitCompare sameIndex = Inr sameIndexReport
   \<and> version (versionReleases sameIndexReport ! 0) = ''1.0.1''
   \<and> \<not> 1 \<le> durationDays (versionReleases sameIndexReport ! 0)"
proof -
  have "version (versionReleases sameIndexReport ! 0) = ''1.0.1''"
    and "\<not> 1 \<le> durationDays (versionReleases sameIndexReport ! 0)"
    by code_simp+
  with sameIndex_runs show ?thesis by simp
qed

text \<open>
  C5: for a release that is not superseded at its own index, the boundary is the smallest
  \<open>index\<close> of any release that is strictly greater than its own, the length of the series
  when there is none; it lies within the series, so \<open>endDownloads\<close> is the total one
  position before it (the fallback to the last element is never taken), and
  \<open>downloadChange\<close> is the difference to the downloads at release.
\<close>

theorem active_release_boundary:
  assumes "generateChart num lc h = Inr out"
    and "i < length (versionReleases out)"
    and "\<not> (i + 1 < length (versionReleases out)
            \<and> index (versionReleases out ! (i + 1)) = index (versionReleases out ! i))"
  shows "(let r = versionReleases out ! i;
              counts = downloadCounts out;
              nb = nextBoundaryIndex (length counts) (map index (versionReleases out)) (index r)
          in index r < nb \<and> nb \<le> length counts
             \<and> releaseDownloads r = counts ! index r
             \<and> endDownloads r = (if 1 \<le> nb \<and> nb - 1 < length counts
                                  then counts ! (nb - 1) else last counts)
             \<and> downloadChange r = endDownloads r - releaseDownloads r)"
proof -
  note a = active_release [OF assms]
  have c: "downloadCounts out = map downloads (dataPoints h)"
    by (rule generateChart_Inr(4) [OF assms(1)])
  let ?nb = "nextBoundaryIndex (length (dataPoints h)) (map index (versionReleases out))
               (index (versionReleases out ! i))"
  from a(1,2) have "index (versionReleases out ! i) < length (dataPoints h)"
    and "1 \<le> ?nb" and "?nb - 1 < length (dataPoints h)" by simp_all
  with a(1,2,3,4,5) show ?thesis
    unfolding Let_def c by simp
qed

theorem active_release_boundary_witness:
  "generateChart Number_js codeUnitCompare endToEnd = Inr endToEndReport
   \<and> 0 < length (versionReleases endToEndReport)
   \<and> \<not> (0 + 1 < length (versionReleases endToEndReport)
          \<and> index (versionReleases endToEndReport ! (0 + 1)) = index (versionReleases endToEndReport ! 0))
   \<and> nextBoundaryIndex (length (downloadCounts endToEndReport))
        (map index (versionReleases endToEndReport)) (index (versionReleases endToEndReport ! 0)) = 3
   \<and> endDownloads (versionReleases endToEndReport ! 0) = downloadCounts endToEndReport ! 2
   \<and> downloadChange (versionReleases endToEndReport ! 0) = 50"
proof -
  have h2: "0 < length (versionReleases endToEndReport)"
    by code_simp
  have h3: "\<not> (0 + 1 < length (versionReleases endToEndReport)
          \<and> index (versionReleases endToEndReport ! (0 + 1)) = index (versionReleases endToEndReport ! 0))"
    by code_simp
  have nb: "nextBoundaryIndex (length (downloadCounts endToEndReport))
        (map index (versionReleases endToEndReport)) (index (versionReleases endToEndReport ! 0)) = 3"
    by code_simp
  have c: "downloadCounts endToEndReport ! 2 = 200"
    and r: "releaseDownloads (versionReleases endToEndReport ! 0) = 150"
    by code_simp+
  show ?thesis
    using active_release_boundary [OF endToEnd_runs h2 h3] endToEnd_runs h2 h3 c r
    unfolding Let_def nb by simp
qed

section \<open>Rolling averages\<close>

lemma foldl_plus_sum_list: "foldl (\<lambda>acc val. acc + val) a xs = a + sum_list xs"
  for a :: int
  by (induction xs arbitrary: a) simp_all

lemma slice_nth: "e \<le> length xs \<Longrightarrow> slice xs s e = map (\<lambda>j. xs ! j) [s..<e]"
  unfolding slice_def by (rule nth_equalityI) simp_all

lemma length_rollingAverage: "length (rollingAverage w dd) = length dd"
  by (simp add: rollingAverage_def)

lemma rollingAverage_nth:
  assumes "i < length dd"
  shows "rollingAverage w dd ! i = (fst (dd ! i), Math_round (windowMean w (map snd dd) i))"
proof -
  let ?win = "map (\<lambda>j. map snd dd ! j) [(i + 1) - w..<i + 1]"
  have s: "nat (max 0 (int i - int w + 1)) = (i + 1) - w" by simp
  have sl: "map snd (slice dd ((i + 1) - w) (i + 1)) = ?win"
  proof -
    have "map snd (slice dd ((i + 1) - w) (i + 1)) = slice (map snd dd) ((i + 1) - w) (i + 1)"
      by (simp add: slice_def take_map drop_map)
    also have "\<dots> = ?win"
      using assms by (intro slice_nth) simp
    finally show ?thesis .
  qed
  have len: "length ?win = i + 1 - ((i + 1) - w)"
    by (simp del: upt_Suc)
  have "rollingAverage w dd ! i =
      (fst (dd ! i),
       Math_round (if length (map snd (slice dd (nat (max 0 (int i - int w + 1))) (i + 1))) > 0
          then of_int (foldl (\<lambda>acc val. acc + val) 0
                        (map snd (slice dd (nat (max 0 (int i - int w + 1))) (i + 1))))
               / of_int (int (length (map snd (slice dd (nat (max 0 (int i - int w + 1))) (i + 1)))))
          else 0))"
    using assms by (simp add: rollingAverage_def Let_def)
  also have "\<dots> = (fst (dd ! i),
       Math_round (if length ?win > 0
          then of_int (sum_list ?win) / of_int (int (length ?win)) else 0))"
    unfolding s sl foldl_plus_sum_list by simp
  also have "\<dots> = (fst (dd ! i), Math_round (windowMean w (map snd dd) i))"
    unfolding len windowMean_def by (cases "w = 0") simp_all
  finally show ?thesis .
qed

lemma threeGrowths_runs: "generateChart Number_js codeUnitCompare threeGrowths = Inr threeGrowthsReport"
proof -
  have "\<exists>out. generateChart Number_js codeUnitCompare threeGrowths = Inr out"
    by (rule generateChart_total) (simp_all add: threeGrowths_def validTime_def)
  then show ?thesis by (auto simp: threeGrowthsReport_def)
qed

text \<open>
  C7: each rolling average has one element per data point, with the date of that point
  and the mean of \<open>dailyGrowth\<close> over the points \<open>[max(0, i-w+1), i]\<close> rounded by
  \<open>Math.round\<close>, which is an integer nearest to the mean; and the growths 10, 20, 30
  give 10, 15, 20 at window 7.
\<close>

theorem rolling_average_is_window_mean:
  assumes "generateChart num lc h = Inr out"
    and "(w = 7 \<and> r = rollingAverageData7Day out) \<or> (w = 30 \<and> r = rollingAverageData30Day out)"
  shows "length r = length (dataPoints h)
         \<and> (\<forall>i < length r.
               fst (r ! i) = date (dataPoints h ! i)
               \<and> snd (r ! i) = Math_round (windowMean w (map dailyGrowth (dataPoints h)) i)
               \<and> \<bar>of_int (snd (r ! i)) - windowMean w (map dailyGrowth (dataPoints h)) i\<bar> \<le> 1 / 2)
         \<and> map snd (rollingAverage 7 [(0, 10), (1, 20), (2, 30)]) = [10, 15, 20]"
proof -
  let ?dd = "map (\<lambda>p. (date p, dailyGrowth p)) (dataPoints h)"
  have dd: "derivativeData out = ?dd" by (rule generateChart_Inr(6) [OF assms(1)])
  have r: "r = rollingAverage w ?dd"
    using assms(2) generateChart_Inr(7,8) [OF assms(1)] by (auto simp: dd)
  have g: "map snd ?dd = map dailyGrowth (dataPoints h)" by (simp add: comp_def)
  have len: "length r = length (dataPoints h)" by (simp add: r length_rollingAverage)
  have nth: "r ! i = (date (dataPoints h ! i),
                      Math_round (windowMean w (map dailyGrowth (dataPoints h)) i))"
    if "i < length r" for i
    using that len rollingAverage_nth [of i ?dd w] unfolding g r by simp
  have ex: "map snd (rollingAverage 7 [(0, 10), (1, 20), (2, 30)]) = [10, 15, 20]"
    by code_simp
  show ?thesis
    using len nth ex Math_round_nearest by simp
qed

theorem rolling_average_is_window_mean_witness:
  "generateChart Number_js codeUnitCompare threeGrowths = Inr threeGrowthsReport
   \<and> (1 :: nat) < length (rollingAverageData7Day threeGrowthsReport)
   \<and> length (rollingAverageData7Day threeGrowthsReport) = length (dataPoints threeGrowths)
   \<and> windowMean 7 (map dailyGrowth (dataPoints threeGrowths)) 1 = 15
   \<and> snd (rollingAverageData7Day threeGrowthsReport ! 1) = 15"
proof -
  have h2: "((7::nat) = 7 \<and> rollingAverageData7Day threeGrowthsReport = rollingAverageData7Day threeGrowthsReport)
      \<or> ((7::nat) = 30 \<and> rollingAverageData7Day threeGrowthsReport = rollingAverageData30Day threeGrowthsReport)"
    by simp
  have h3: "(1 :: nat) < length (rollingAverageData7Day threeGrowthsReport)"
    by code_simp
  have m: "windowMean 7 (map dailyGrowth (dataPoints threeGrowths)) 1 = 15"
    by code_simp
  have "Math_round 15 = 15" by code_simp
  then show ?thesis
    using rolling_average_is_window_mean [OF threeGrowths_runs h2] threeGrowths_runs h3 m
    by simp
qed

section \<open>Missing members\<close>

text \<open>
  C10: when every time stamp of the file is a valid date, the run completes, and an entry
  whose \<open>downloads\<close> or \<open>dailyGrowth\<close> member is absent or falsy is a data point of the
  series with 0 in that field, in the totals and in the growth series like any other.
\<close>

theorem missing_members_default_to_zero:
  assumes "e \<in> set h" and "\<forall>e' \<in> set h. validTime (fst e')"
  shows "\<exists>out. generateChart num lc h = Inr out
           \<and> mkPoint e \<in> set (dataPoints h)
           \<and> downloadCounts out = map downloads (dataPoints h)
           \<and> map snd (derivativeData out) = map dailyGrowth (dataPoints h)
           \<and> (absentOrFalsy (map_of (snd e) ''downloads'') \<longrightarrow> downloads (mkPoint e) = 0)
           \<and> (absentOrFalsy (map_of (snd e) ''dailyGrowth'') \<longrightarrow> dailyGrowth (mkPoint e) = 0)"
proof -
  from assms(1) have "h \<noteq> []" by auto
  from generateChart_total [OF this assms(2)]
  obtain out where out: "generateChart num lc h = Inr out" ..
  have "mkPoint e \<in> set (dataPoints h)"
    using assms(1) by (simp add: set_dataPoints)
  moreover have "map snd (derivativeData out) = map dailyGrowth (dataPoints h)"
    by (simp add: generateChart_Inr(6) [OF out] comp_def)
  ultimately show ?thesis
    using out generateChart_Inr(4) [OF out] mkPoint_absent [of e] by blast
qed

theorem missing_members_default_to_zero_witness:
  "(86400000, [(''downloads'', JNum 150)]) \<in> set twoDays
   \<and> validTime (fst (twoDays ! 0)) \<and> validTime (fst (twoDays ! 1))
   \<and> absentOrFalsy (map_of (snd (86400000 :: int, [(''downloads'', JNum 150)])) ''dailyGrowth'')
   \<and> (\<exists>out. generateChart Number_js codeUnitCompare twoDays = Inr out
          \<and> mkPoint (86400000, [(''downloads'', JNum 150)]) \<in> set (dataPoints twoDays)
          \<and> dailyGrowth (mkPoint (86400000, [(''downloads'', JNum 150)])) = 0)"
proof -
  have h1: "(86400000, [(''downloads'', JNum 150)]) \<in> set twoDays"
    by (simp add: twoDays_def)
  have h2: "\<forall>e' \<in> set twoDays. validTime (fst e')"
    by (simp add: twoDays_def validTime_def)
  have h3: "absentOrFalsy (map_of (snd (86400000 :: int, [(''downloads'', JNum 150)])) ''dailyGrowth'')"
    by simp
  have v: "validTime (fst (twoDays ! 0))" "validTime (fst (twoDays ! 1))"
    by (simp_all add: twoDays_def validTime_def)
  show ?thesis
    using missing_members_default_to_zero [OF h1 h2, where num = Number_js and lc = codeUnitCompare] h1 h3 v by blast
qed

section \<open>The accepted series\<close>

lemma acceptRevisions_subset:
  "set (acceptRevisions b revs) \<subseteq> {(t, d). (t, Some d) \<in> set revs}"
  by (induction b revs rule: acceptRevisions.induct)
     (auto split: option.splits jval.splits if_splits)

lemma acceptRevisions_dates:
  "sorted_wrt (<) (map fst revs) \<Longrightarrow> sorted_wrt (<) (map fst (acceptRevisions b revs))"
proof (induction b revs rule: acceptRevisions.induct)
  case (1 b)
  show ?case by simp
next
  case (2 b t rest)
  then show ?case by simp
next
  case (3 b t d rest)
  have "\<forall>x \<in> set (acceptRevisions b' rest). t < fst x" for b'
    using "3.prems" acceptRevisions_subset [of b' rest] by fastforce
  with 3 show ?case
    by (auto split: option.splits jval.splits)
qed

lemma acceptRevisions_totals:
  "sorted (map downloads (map mkPoint (acceptRevisions b revs)))
   \<and> (\<forall>e \<in> set (acceptRevisions b revs). \<forall>n. b = Some n \<longrightarrow> n \<le> downloads (mkPoint e))"
proof (induction b revs rule: acceptRevisions.induct)
  case (1 b)
  show ?case by simp
next
  case (2 b t rest)
  then show ?case by auto
next
  case (3 b t d rest)
  show ?case
  proof (cases "map_of d ''downloads''")
    case None
    with "3.IH" show ?thesis by auto
  next
    case (Some v)
    show ?thesis
    proof (cases v)
      case (JNum n)
      show ?thesis
      proof (cases "b = None \<or> the b \<le> n")
        case True
        have dl: "downloads (mkPoint (t, d)) = n"
          by (simp add: mkPoint_def Some JNum)
        from "3.IH" Some JNum True
        have ih: "sorted (map downloads (map mkPoint (acceptRevisions (Some n) rest)))"
          and lb: "\<forall>e \<in> set (acceptRevisions (Some n) rest). n \<le> downloads (mkPoint e)"
          by blast+
        from True ih lb dl show ?thesis
          by (auto simp: Some JNum)
      next
        case False
        with "3.IH" Some JNum show ?thesis
          by auto
      qed
    qed (use "3.IH" Some in auto)
  qed
qed

lemma filter_same_key:
  "distinct (map f xs) \<Longrightarrow> k \<in> set xs \<Longrightarrow> filter (\<lambda>x. f k = f x) xs = [k]"
proof (induction xs)
  case Nil
  then show ?case by simp
next
  case (Cons x xs)
  show ?case
  proof (cases "k = x")
    case True
    with Cons.prems have "\<forall>y \<in> set xs. f x \<noteq> f y" by auto
    then have "filter (\<lambda>y. f x = f y) xs = []" by (simp add: filter_empty_conv)
    with True show ?thesis by simp
  next
    case False
    with Cons.prems have kx: "k \<in> set xs" by auto
    with Cons.prems have "f k \<noteq> f x" by (metis distinct.simps(2) image_eqI list.simps(9) set_map)
    note kx this
    with Cons show ?thesis by simp
  qed
qed

lemma sort_key_unique:
  assumes "mset xs = mset ys" and "sorted_wrt (<) (map f ys)"
  shows "sort_key f xs = ys"
proof (rule properties_for_sort_key)
  show "mset ys = mset xs" using assms(1) by simp
  from assms(2) have dy: "distinct (map f ys)"
    by (simp add: strict_sorted_iff)
  have "mset (map f xs) = mset (map f ys)" using assms(1) by (metis mset_map)
  with dy have dx: "distinct (map f xs)" by (metis mset_eq_imp_distinct_iff)
  show "filter (\<lambda>x. f k = f x) ys = filter (\<lambda>x. f k = f x) xs" if "k \<in> set ys" for k
  proof -
    from that assms(1) have "k \<in> set xs" by (metis mset_eq_setD)
    with dx that dy show ?thesis by (simp add: filter_same_key)
  qed
  show "sorted (map f ys)" using assms(2) by (rule strict_sorted_imp_sorted)
qed

text \<open>
  C9: revisions in ascending order of time stamp, filtered by the extractor and stored in
  the history file in any order, reach the later stages as the accepted series in that
  order: the time stamps ascend and the totals never decrease from one data point to
  the next.
\<close>

theorem accepted_series_is_monotone:
  assumes "sorted_wrt (<) (map fst revs)" and "mset h = mset (acceptRevisions None revs)"
  shows "dataPoints h = map mkPoint (acceptRevisions None revs)
         \<and> sorted_wrt (<) (map date (dataPoints h))
         \<and> sorted (map downloads (dataPoints h))"
proof -
  let ?acc = "acceptRevisions None revs"
  have d: "map date (map mkPoint ?acc) = map fst ?acc"
    by (simp add: mkPoint_def comp_def)
  have strict: "sorted_wrt (<) (map date (map mkPoint ?acc))"
    unfolding d using assms(1) by (rule acceptRevisions_dates)
  have "mset (map mkPoint h) = mset (map mkPoint ?acc)"
    using assms(2) by (metis mset_map)
  then have id: "dataPoints h = map mkPoint ?acc"
    unfolding dataPoints_sort_key using strict by (rule sort_key_unique)
  show ?thesis
    using strict acceptRevisions_totals [of None revs] unfolding id by simp
qed

theorem accepted_series_is_monotone_witness:
  "sorted_wrt (<) (map fst fourRevisions)
   \<and> mset (rev (acceptRevisions None fourRevisions)) = mset (acceptRevisions None fourRevisions)
   \<and> map downloads (dataPoints (rev (acceptRevisions None fourRevisions))) = [100, 250, 300]
   \<and> sorted (map downloads (dataPoints (rev (acceptRevisions None fourRevisions))))"
proof -
  have h: "sorted_wrt (<) (map fst fourRevisions)"
    by (simp add: fourRevisions_def)
  have m: "mset (rev (acceptRevisions None fourRevisions)) = mset (acceptRevisions None fourRevisions)"
    by simp
  have v: "map downloads (dataPoints (rev (acceptRevisions None fourRevisions))) = [100, 250, 300]"
    by code_simp
  show ?thesis
    using accepted_series_is_monotone [OF h m] h m v by blast
qed

section \<open>Comparing versions\<close>

lemma firstDiff_None_iff:
  "firstDiff a b i k = None \<longleftrightarrow> (\<forall>j. i \<le> j \<and> j < i + k \<longrightarrow> a j = b j)"
proof (induction k arbitrary: i)
  case 0
  show ?case by auto
next
  case (Suc k)
  show ?case
  proof (cases "a i = b i")
    case True
    have "(\<forall>j. Suc i \<le> j \<and> j < Suc i + k \<longrightarrow> a j = b j)
            \<longleftrightarrow> (\<forall>j. i \<le> j \<and> j < i + Suc k \<longrightarrow> a j = b j)"
      using True by (metis Suc_leD Suc_leI add_Suc add_Suc_right le_neq_implies_less)
    then show ?thesis using True Suc.IH [of "Suc i"] by simp
  next
    case False
    then show ?thesis by auto
  qed
qed

lemma firstDiff_first:
  assumes "i \<le> j" and "j < i + k" and "\<forall>l. i \<le> l \<and> l < j \<longrightarrow> a l = b l" and "a j \<noteq> b j"
  shows "firstDiff a b i k = Some (a j, b j)"
  using assms
proof (induction k arbitrary: i)
  case 0
  then show ?case by simp
next
  case (Suc k)
  show ?case
  proof (cases "i = j")
    case True
    with Suc.prems show ?thesis by simp
  next
    case False
    with Suc.prems have "a i = b i" and "Suc i \<le> j" and "j < Suc i + k"
      and "\<forall>l. Suc i \<le> l \<and> l < j \<longrightarrow> a l = b l"
      by auto
    with Suc.IH [of "Suc i"] Suc.prems(4) show ?thesis by simp
  qed
qed


lemma valAt_beyond: "length parts \<le> j \<Longrightarrow> valAt parts j = 0"
  by (simp add: valAt_def)

text \<open>
  The numeric part of \<open>compareVersions\<close>: the first position where the dotted numbers of
  the two base versions differ, a missing component counting as 0, decides, and by the
  difference of the two components.
\<close>

lemma compareVersions_numeric:
  assumes "\<forall>l < j. valAt (baseParts a) l = valAt (baseParts b) l"
    and "valAt (baseParts a) j \<noteq> valAt (baseParts b) j"
  shows "compareVersions lc a b = valAt (baseParts a) j - valAt (baseParts b) j"
proof -
  have "j < max (length (baseParts a)) (length (baseParts b))"
    using assms(2) valAt_beyond [of "baseParts a" j] valAt_beyond [of "baseParts b" j]
    by (cases "j < max (length (baseParts a)) (length (baseParts b))") auto
  with assms have "firstDiff (valAt (baseParts a)) (valAt (baseParts b)) 0
                     (max (length (baseParts a)) (length (baseParts b)))
                   = Some (valAt (baseParts a) j, valAt (baseParts b) j)"
    by (intro firstDiff_first) auto
  then show ?thesis by (simp add: compareVersions_def Let_def)
qed

text \<open>
  With numerically equal base versions, a version without \<open>-\<close> is greater than one with,
  and two versions with \<open>-\<close> are compared by \<open>localeCompare\<close> on the text between the
  first and the second \<open>-\<close>.
\<close>

lemma compareVersions_prerelease:
  assumes "\<forall>l. valAt (baseParts a) l = valAt (baseParts b) l"
  shows "compareVersions lc a b =
           (if CHR ''-'' \<notin> set a \<and> CHR ''-'' \<in> set b then 1
            else if CHR ''-'' \<in> set a \<and> CHR ''-'' \<notin> set b then - 1
            else if CHR ''-'' \<notin> set a \<and> CHR ''-'' \<notin> set b then 0
            else lc (split_on isDash a ! 1) (split_on isDash b ! 1))"
proof -
  have "firstDiff (valAt (baseParts a)) (valAt (baseParts b)) 0
          (max (length (baseParts a)) (length (baseParts b))) = None"
    using assms by (simp add: firstDiff_None_iff)
  then show ?thesis by (simp add: compareVersions_def Let_def)
qed

lemmas version_eval =
  compareVersions_def baseParts_def isDashOrPlus_def isDot_def isDash_def valAt_def
  orZero_def parseInt10_def isWhiteSpace_def isDigit_def digitsToInt_def

text \<open>The example of the specification, whatever the collation.\<close>

lemma compareVersions_sort_example:
  "sort_js (compareVersions lc) [''2.0.0'', ''1.9.0-beta'', ''1.9.0'']
     = [''1.9.0-beta'', ''1.9.0'', ''2.0.0'']"
  by (simp add: version_eval)

text \<open>
  C6: the suffixes \<open>rc-1\<close> and \<open>rc-2\<close> differ, yet the two versions compare as equal:
  the script reads the tag with \<open>split("-")[1]\<close>, which stops at the second \<open>-\<close>, and
  so compares \<open>rc\<close> with \<open>rc\<close>.
\<close>

theorem hyphenated_prerelease_tags_compare_equal:
  "compareVersions lc ''1.0.0-rc-1'' ''1.0.0-rc-2'' = lc ''rc'' ''rc''
   \<and> compareVersions codeUnitCompare ''1.0.0-rc-1'' ''1.0.0-rc-2'' = 0
   \<and> codeUnitCompare ''rc-1'' ''rc-2'' = - 1"
  by (simp add: version_eval)

section \<open>The current version tag\<close>

lemma sorted_wrt_insert_js:
  assumes total: "\<And>a b. cmp a b \<le> 0 \<or> cmp b a \<le> 0"
    and trans: "\<And>a b c. cmp a b \<le> 0 \<Longrightarrow> cmp b c \<le> 0 \<Longrightarrow> cmp a c \<le> 0"
  shows "sorted_wrt (\<lambda>a b. cmp a b \<le> 0) xs \<Longrightarrow> sorted_wrt (\<lambda>a b. cmp a b \<le> 0) (insert_js cmp x xs)"
proof (induction xs)
  case Nil
  show ?case by simp
next
  case (Cons y ys)
  show ?case
  proof (cases "cmp x y \<le> 0")
    case True
    with Cons.prems trans [of x y] show ?thesis by auto
  next
    case False
    with total [of x y] have yx: "cmp y x \<le> 0" by simp
    have "set (insert_js cmp x ys) = insert x (set ys)"
      using mset_insert_js [of cmp x ys] by (metis set_mset_add_mset_insert set_mset_mset)
    with False Cons yx show ?thesis by auto
  qed
qed

lemma sorted_wrt_sort_js:
  assumes "\<And>a b. cmp a b \<le> 0 \<or> cmp b a \<le> 0"
    and "\<And>a b c. cmp a b \<le> 0 \<Longrightarrow> cmp b c \<le> 0 \<Longrightarrow> cmp a c \<le> 0"
  shows "sorted_wrt (\<lambda>a b. cmp a b \<le> 0) (sort_js cmp xs)"
  by (induction xs) (simp_all add: sorted_wrt_insert_js [of cmp, OF assms])















end
